theory Spec2Isabelle
  imports Main "HOL-Library.Word" "HOL-Library.Multiset"
begin

section \<open>Values shared by the relay and the chat page\<close>

text \<open>
  A JavaScript string is a sequence of UTF-16 code units. Time stamps
  (\<open>Date.toISOString()\<close> on the client, \<open>TIMESTAMPTZ\<close> in the table) are modelled
  by the number of microseconds since the epoch, the resolution of \<open>TIMESTAMPTZ\<close>;
  both representations order the same way.
\<close>

type_synonym jstring = "16 word list"

type_synonym timestamp = int

section \<open>The Socket.IO server: presence registry and relay\<close>

subsection \<open>The \<open>connectedUsers\<close> map\<close>

text \<open>
  \<open>interface UserSocket { userId: string; userName: string; userAvatar?: string }\<close>
\<close>

record UserSocket =
  userId :: jstring
  userName :: jstring
  userAvatar :: "jstring option"

text \<open>
  \<open>const connectedUsers = new Map<string, UserSocket>()\<close>. A JavaScript \<open>Map\<close>
  keeps its entries in insertion order: \<open>set\<close> on a key that is present replaces the
  value where the entry stands, \<open>set\<close> on a new key appends an entry, \<open>delete\<close>
  removes the entry of the key, \<open>get\<close> is \<open>undefined\<close> (here \<open>None\<close>) on a missing
  key, and \<open>values()\<close> iterates in insertion order.
\<close>

type_synonym ('k, 'v) js_map = "('k \<times> 'v) list"

fun Map_set :: "'k \<Rightarrow> 'v \<Rightarrow> ('k, 'v) js_map \<Rightarrow> ('k, 'v) js_map" where
  "Map_set k v [] = [(k, v)]"
| "Map_set k v ((k', v') # es) =
     (if k' = k then (k, v) # es else (k', v') # Map_set k v es)"

fun Map_get :: "'k \<Rightarrow> ('k, 'v) js_map \<Rightarrow> 'v option" where
  "Map_get k [] = None"
| "Map_get k ((k', v') # es) = (if k' = k then Some v' else Map_get k es)"

fun Map_delete :: "'k \<Rightarrow> ('k, 'v) js_map \<Rightarrow> ('k, 'v) js_map" where
  "Map_delete k [] = []"
| "Map_delete k ((k', v') # es) =
     (if k' = k then Map_delete k es else (k', v') # Map_delete k es)"

definition Map_values :: "('k, 'v) js_map \<Rightarrow> 'v list" where
  "Map_values es = map snd es"

definition Map_keys :: "('k, 'v) js_map \<Rightarrow> 'k list" where
  "Map_keys es = map fst es"

text \<open>
  The two places where the server writes the registry: the \<open>user:join\<close> handler
  calls \<open>connectedUsers.set(socket.id, userData)\<close>, the \<open>disconnect\<close> handler calls
  \<open>connectedUsers.delete(socket.id)\<close> when \<open>connectedUsers.get(socket.id)\<close> is
  defined. \<open>list_online\<close> is \<open>Array.from(connectedUsers.values())\<close>.
\<close>

datatype registry_op = Register jstring UserSocket | Unregister jstring

definition register :: "jstring \<Rightarrow> UserSocket \<Rightarrow> (jstring, UserSocket) js_map
    \<Rightarrow> (jstring, UserSocket) js_map" where
  "register sid userData reg = Map_set sid userData reg"

definition unregister :: "jstring \<Rightarrow> (jstring, UserSocket) js_map
    \<Rightarrow> (jstring, UserSocket) js_map" where
  "unregister sid reg =
     (case Map_get sid reg of None \<Rightarrow> reg | Some user \<Rightarrow> Map_delete sid reg)"

definition list_online :: "(jstring, UserSocket) js_map \<Rightarrow> UserSocket list" where
  "list_online reg = Map_values reg"

fun apply_registry_op :: "(jstring, UserSocket) js_map \<Rightarrow> registry_op
    \<Rightarrow> (jstring, UserSocket) js_map" where
  "apply_registry_op reg (Register sid userData) = register sid userData reg"
| "apply_registry_op reg (Unregister sid) = unregister sid reg"

definition run_registry :: "registry_op list \<Rightarrow> (jstring, UserSocket) js_map" where
  "run_registry ops = foldl apply_registry_op [] ops"

text \<open>
  The specification's reading of a history of calls: the entry of a connection is the
  participant of its latest \<open>register\<close>, provided no \<open>unregister\<close> of that connection
  and no further \<open>register\<close> of it comes later.
\<close>

definition registered_and_not_unregistered :: "registry_op list \<Rightarrow> jstring \<Rightarrow> UserSocket \<Rightarrow> bool" where
  "registered_and_not_unregistered ops sid userData \<longleftrightarrow>
     (\<exists>before after. ops = before @ Register sid userData # after
        \<and> Unregister sid \<notin> set after
        \<and> (\<forall>other. Register sid other \<notin> set after))"

subsection \<open>Events of the relay\<close>

text \<open>
  What the server sends. The payload of \<open>message:received\<close> is whatever the client
  sent with \<open>message:send\<close>: the server passes it on untouched, so its type is a
  parameter. A delivery pairs the socket that receives an event with the event.
\<close>

datatype 'm server_event =
    user_joined jstring jstring "jstring option" jstring
  | users_online "UserSocket list"
  | message_received 'm
  | user_typing jstring jstring
  | user_stopped_typing jstring
  | user_left jstring jstring jstring

type_synonym 'm delivery = "jstring \<times> 'm server_event"

text \<open>
  The state of the server: the sockets now connected to the namespace, in the order they
  connected, and the \<open>connectedUsers\<close> map.
\<close>

record relay_state =
  sockets :: "jstring list"
  connectedUsers :: "(jstring, UserSocket) js_map"

definition initial_relay :: relay_state where
  "initial_relay = \<lparr>sockets = [], connectedUsers = []\<rparr>"

text \<open>
  The three ways the handlers send: \<open>io.emit\<close> reaches every connected socket,
  \<open>socket.emit\<close> reaches the handler's own socket, \<open>socket.broadcast.emit\<close> reaches
  every connected socket but the handler's own.
\<close>

definition io_emit :: "relay_state \<Rightarrow> 'm server_event \<Rightarrow> 'm delivery list" where
  "io_emit s ev = map (\<lambda>c. (c, ev)) (sockets s)"

definition socket_emit :: "jstring \<Rightarrow> 'm server_event \<Rightarrow> 'm delivery list" where
  "socket_emit sid ev = [(sid, ev)]"

definition socket_broadcast_emit :: "relay_state \<Rightarrow> jstring \<Rightarrow> 'm server_event \<Rightarrow> 'm delivery list" where
  "socket_broadcast_emit s sid ev = map (\<lambda>c. (c, ev)) (filter (\<lambda>c. c \<noteq> sid) (sockets s))"

subsection \<open>The handlers\<close>

text \<open>\<open>io.on('connection', ...)\<close>: the transport has attached a socket with a fresh id.\<close>

definition on_connection :: "relay_state \<Rightarrow> jstring \<Rightarrow> relay_state \<times> 'm delivery list" where
  "on_connection s sid = (s\<lparr>sockets := sockets s @ [sid]\<rparr>, [])"

text \<open>\<open>socket.on('user:join', ...)\<close>\<close>

definition on_user_join :: "relay_state \<Rightarrow> jstring \<Rightarrow> UserSocket \<Rightarrow> relay_state \<times> 'm delivery list" where
  "on_user_join s sid userData =
     (let s1 = s\<lparr>connectedUsers := Map_set sid userData (connectedUsers s)\<rparr>;
          joined = io_emit s1 (user_joined (userId userData) (userName userData) (userAvatar userData) sid);
          onlineUsers = Map_values (connectedUsers s1)
      in (s1, joined @ socket_emit sid (users_online onlineUsers)))"

text \<open>\<open>socket.on('message:send', ...)\<close>\<close>

definition on_message_send :: "relay_state \<Rightarrow> jstring \<Rightarrow> 'm \<Rightarrow> relay_state \<times> 'm delivery list" where
  "on_message_send s sid message = (s, io_emit s (message_received message))"

text \<open>\<open>socket.on('typing:start', ...)\<close> and \<open>socket.on('typing:stop', ...)\<close>\<close>

definition on_typing_start :: "relay_state \<Rightarrow> jstring \<Rightarrow> jstring \<Rightarrow> jstring \<Rightarrow> relay_state \<times> 'm delivery list" where
  "on_typing_start s sid uid uname = (s, socket_broadcast_emit s sid (user_typing uid uname))"

definition on_typing_stop :: "relay_state \<Rightarrow> jstring \<Rightarrow> jstring \<Rightarrow> relay_state \<times> 'm delivery list" where
  "on_typing_stop s sid uid = (s, socket_broadcast_emit s sid (user_stopped_typing uid))"

text \<open>
  \<open>socket.on('disconnect', ...)\<close>. Socket.IO takes the socket out of the namespace
  before it runs the \<open>disconnect\<close> listeners, so \<open>io.emit\<close> inside the handler
  reaches the sockets that remain.
\<close>

definition on_disconnect :: "relay_state \<Rightarrow> jstring \<Rightarrow> relay_state \<times> 'm delivery list" where
  "on_disconnect s sid =
     (let s1 = s\<lparr>sockets := removeAll sid (sockets s)\<rparr>
      in case Map_get sid (connectedUsers s1) of
           None \<Rightarrow> (s1, [])
         | Some user \<Rightarrow>
             (let s2 = s1\<lparr>connectedUsers := Map_delete sid (connectedUsers s1)\<rparr>
              in (s2, io_emit s2 (user_left (userId user) (userName user) sid))))"

text \<open>What a socket can make the server do, and the server running a sequence of it.\<close>

datatype 'm client_event =
    connection
  | user_join UserSocket
  | message_send 'm
  | typing_start jstring jstring
  | typing_stop jstring
  | disconnect

fun relay_step :: "relay_state \<Rightarrow> jstring \<times> 'm client_event \<Rightarrow> relay_state \<times> 'm delivery list" where
  "relay_step s (sid, connection) = on_connection s sid"
| "relay_step s (sid, user_join userData) = on_user_join s sid userData"
| "relay_step s (sid, message_send message) = on_message_send s sid message"
| "relay_step s (sid, typing_start uid uname) = on_typing_start s sid uid uname"
| "relay_step s (sid, typing_stop uid) = on_typing_stop s sid uid"
| "relay_step s (sid, disconnect) = on_disconnect s sid"

fun relay_run :: "relay_state \<Rightarrow> (jstring \<times> 'm client_event) list \<Rightarrow> relay_state \<times> 'm delivery list" where
  "relay_run s [] = (s, [])"
| "relay_run s (e # es) =
     (let (s1, out1) = relay_step s e; (s2, out2) = relay_run s1 es in (s2, out1 @ out2))"

text \<open>The events one socket has received, in order.\<close>

definition received_by :: "jstring \<Rightarrow> 'm delivery list \<Rightarrow> 'm server_event list" where
  "received_by sid out = map snd (filter (\<lambda>d. fst d = sid) out)"

text \<open>
  The registry calls that a sequence of socket events amounts to: each \<open>user:join\<close>
  is a \<open>register\<close> of the socket, each \<open>disconnect\<close> an \<open>unregister\<close>.
\<close>

fun registry_ops_of :: "(jstring \<times> 'm client_event) list \<Rightarrow> registry_op list" where
  "registry_ops_of [] = []"
| "registry_ops_of ((sid, user_join userData) # es) = Register sid userData # registry_ops_of es"
| "registry_ops_of ((sid, disconnect) # es) = Unregister sid # registry_ops_of es"
| "registry_ops_of (e # es) = registry_ops_of es"


section \<open>The \<open>messages\<close> table\<close>

text \<open>
  The columns of \<open>messages\<close> in the schema: \<open>id\<close> (the primary key), \<open>user_id\<close>,
  \<open>user_name\<close>, \<open>user_avatar\<close> (nullable), \<open>content\<close>, \<open>created_at\<close>. The
  client's \<open>Message\<close> interface has the same fields and \<open>timestamp\<close>.
\<close>

record messages_row =
  id_msg :: jstring
  user_id :: jstring
  user_name :: jstring
  user_avatar :: "jstring option"
  content :: jstring
  created_at :: timestamp

record Message = messages_row +
  timestamp :: timestamp

text \<open>The table is the list of its rows, in the order they were inserted.\<close>

type_synonym messages_table = "messages_row list"

definition three_days :: int where
  "three_days = 3 * 24 * 60 * 60 * 1000000"

text \<open>
  What the datastore contributes to one request of the client:
  \<^item> \<open>auth_uid\<close>, the \<open>auth.uid()\<close> of the session that makes the request: the id of
    the signed-in user, or nothing for a request without a user session;
  \<^item> \<open>server_now\<close>, the server's \<open>NOW()\<close>;
  \<^item> \<open>tie_rank\<close>: the queries order by \<open>created_at\<close> and by nothing else, which
    leaves the order of rows with equal \<open>created_at\<close> to Postgres; \<open>tie_rank\<close> is the
    order it picks for this request (rows of lower rank first);
  \<^item> whether the request fails for a reason of its own (network, a constraint other than
    the primary key).
\<close>

record store_env =
  auth_uid :: "jstring option"
  server_now :: timestamp
  tie_rank :: "messages_row \<Rightarrow> nat"
  insert_fails :: bool
  select_fails :: bool
  delete_fails :: bool

text \<open>
  Row-level security is enabled on \<open>messages\<close>, with three policies:
  \<^item> "Authenticated users can view messages": \<open>FOR SELECT USING (auth.role() = 'authenticated')\<close>;
  \<^item> "Users can insert own messages": \<open>FOR INSERT WITH CHECK (auth.uid() = user_id)\<close>;
  \<^item> "Users can delete own messages": \<open>FOR DELETE USING (auth.uid() = user_id)\<close>.

  A row that fails a \<open>USING\<close> policy is invisible to the statement, which skips it
  without an error; a row that fails \<open>WITH CHECK\<close> makes the insert fail.
\<close>

definition policy_view_messages :: "store_env \<Rightarrow> bool" where
  "policy_view_messages env \<longleftrightarrow> auth_uid env \<noteq> None"

definition policy_insert_own_messages :: "store_env \<Rightarrow> messages_row \<Rightarrow> bool" where
  "policy_insert_own_messages env r \<longleftrightarrow> auth_uid env = Some (user_id r)"

definition policy_delete_own_messages :: "store_env \<Rightarrow> messages_row \<Rightarrow> bool" where
  "policy_delete_own_messages env r \<longleftrightarrow> auth_uid env = Some (user_id r)"

text \<open>
  \<open>DELETE FROM messages WHERE created_at < NOW() - INTERVAL '3 days'\<close>, the body of
  the trigger function \<open>auto_delete_old_messages\<close>. Unlike \<open>delete_old_messages\<close> and
  \<open>cleanup_messages\<close>, the function is not declared \<open>SECURITY DEFINER\<close>: its
  statement runs as the user whose insert fired the trigger, under the delete policy.
\<close>

definition auto_delete_old_messages :: "store_env \<Rightarrow> messages_table \<Rightarrow> messages_table" where
  "auto_delete_old_messages env tbl =
     filter (\<lambda>r. \<not> (policy_delete_own_messages env r \<and> created_at r < server_now env - three_days))
       tbl"

datatype store_error = request_failed | policy_violation | unique_violation

text \<open>
  \<open>supabase.from('messages').insert(row)\<close>. The row must pass the insert policy; a row
  whose \<open>id\<close> is in the table already violates the primary key.
  \<open>trigger_auto_delete_old_messages\<close> runs \<open>AFTER INSERT ON messages FOR EACH STATEMENT\<close>,
  inside the statement's transaction.
\<close>

definition insert_message :: "store_env \<Rightarrow> messages_row \<Rightarrow> messages_table \<Rightarrow> store_error + messages_table" where
  "insert_message env r tbl =
     (if insert_fails env then Inl request_failed
      else if \<not> policy_insert_own_messages env r then Inl policy_violation
      else if id_msg r \<in> set (map id_msg tbl) then Inl unique_violation
      else Inr (auto_delete_old_messages env (tbl @ [r])))"

text \<open>
  \<open>.select(...).order('created_at', { ascending: true })\<close>: the rows the select policy
  shows, in ascending order of \<open>created_at\<close>, rows with equal \<open>created_at\<close> in the
  order of \<open>tie_rank\<close>.
\<close>

definition select_ordered :: "store_env \<Rightarrow> messages_table \<Rightarrow> messages_row list" where
  "select_ordered env tbl =
     (if policy_view_messages env then sort_key created_at (sort_key (tie_rank env) tbl) else [])"

text \<open>\<open>.delete().in('id', ids)\<close>: deletes the rows of these ids that the delete policy shows.\<close>

definition delete_in :: "store_env \<Rightarrow> jstring list \<Rightarrow> messages_table \<Rightarrow> messages_table" where
  "delete_in env ids tbl =
     filter (\<lambda>r. \<not> (id_msg r \<in> set ids \<and> policy_delete_own_messages env r)) tbl"

section \<open>The chat page\<close>

subsection \<open>Loading the history\<close>

text \<open>
  \<open>loadMessages\<close>: \<open>.select('*').order('created_at', { ascending: true }).limit(100)\<close>,
  then \<open>if (data && !error) setMessages(data)\<close>. The function maps the \<open>messages\<close>
  state before to the \<open>messages\<close> state after.
\<close>

definition loadMessages :: "store_env \<Rightarrow> messages_table \<Rightarrow> messages_row list \<Rightarrow> messages_row list" where
  "loadMessages env tbl messages =
     (if select_fails env then messages else take 100 (select_ordered env tbl))"

text \<open>
  The specification's words for the same read: of the messages in ascending order of
  creation time, the most recent \<open>n\<close>.
\<close>

definition most_recent_ascending :: "nat \<Rightarrow> messages_row list \<Rightarrow> messages_row list" where
  "most_recent_ascending n ascending = drop (length ascending - n) ascending"

subsection \<open>Sending a message\<close>

text \<open>
  \<open>String.prototype.trim\<close> removes the white space and line terminators of ECMAScript
  from both ends: TAB, LF, VT, FF, CR, SPACE, NBSP, the other space separators of Unicode
  (U+1680, U+2000 to U+200A, U+202F, U+205F, U+3000), LS, PS and the byte order mark.
\<close>

definition is_js_whitespace :: "16 word \<Rightarrow> bool" where
  "is_js_whitespace c \<longleftrightarrow>
     c = 0x0009 \<or> c = 0x000A \<or> c = 0x000B \<or> c = 0x000C \<or> c = 0x000D \<or> c = 0x0020
     \<or> c = 0x00A0 \<or> c = 0x1680 \<or> (0x2000 \<le> c \<and> c \<le> 0x200A) \<or> c = 0x2028 \<or> c = 0x2029
     \<or> c = 0x202F \<or> c = 0x205F \<or> c = 0x3000 \<or> c = 0xFEFF"

definition trim :: "jstring \<Rightarrow> jstring" where
  "trim s = rev (dropWhile is_js_whitespace (rev (dropWhile is_js_whitespace s)))"

text \<open>
  The fields of the signed-in \<open>User\<close> that sending reads, and the state of the page that
  it reads or writes: the auth user, the editable profile, the draft \<open>newMessage\<close>, and
  the socket (\<open>None\<close> while there is none, otherwise whether it is connected).
\<close>

record User =
  id_user :: jstring
  name :: jstring
  profile_picture_url :: "jstring option"

record page_state =
  user :: "User option"
  profile :: "User option"
  newMessage :: jstring
  socket_connected :: "bool option"

text \<open>What the browser contributes to one send: \<open>crypto.randomUUID()\<close> and the two
  readings of \<open>new Date()\<close>.\<close>

record client_env =
  randomUUID :: jstring
  date_timestamp :: timestamp
  date_created_at :: timestamp

text \<open>The requests the page makes to the datastore, in order.\<close>

datatype store_request =
    insert_request messages_row
  | select_request
  | delete_request "jstring list"

text \<open>
  The block after a successful insert that keeps at most 50 rows: read \<open>id, created_at\<close>
  of all rows in ascending order of \<open>created_at\<close>; if there are more than 50, request
  the deletion of the rows whose ids are in
  \<open>allMessages.slice(0, allMessages.length - 50)\<close>. The response of the delete is not
  looked at, so rows that the datastore's policy keeps go unnoticed. A failed
  read or delete leaves the table as it is, whether it comes back as an error value or as
  an exception caught by the \<open>catch\<close>. The result is the table and the requests made.
\<close>

definition enforce_maximum :: "store_env \<Rightarrow> messages_table \<Rightarrow> messages_table \<times> store_request list" where
  "enforce_maximum env tbl =
     (if select_fails env then (tbl, [select_request])
      else
        let allMessages = map (\<lambda>r. (id_msg r, created_at r)) (select_ordered env tbl) in
        if length allMessages > 50 then
          let idsToDelete = map fst (take (length allMessages - 50) allMessages) in
          if length idsToDelete > 0 then
            (if delete_fails env then tbl else delete_in env idsToDelete tbl,
             [select_request, delete_request idsToDelete])
          else (tbl, [select_request])
        else (tbl, [select_request]))"

text \<open>
  The two object literals of \<open>handleSendMessage\<close>: \<open>messageData\<close>, built from the
  auth user, the effective profile (\<open>profile ?? user\<close>) and the trimmed draft, and the
  row passed to \<open>insert\<close>, which is \<open>messageData\<close> without \<open>timestamp\<close>.
\<close>

definition build_messageData :: "client_env \<Rightarrow> page_state \<Rightarrow> User \<Rightarrow> Message" where
  "build_messageData cenv st u =
     (let effectiveProfile = (case profile st of Some p \<Rightarrow> p | None \<Rightarrow> u)
      in \<lparr>id_msg = randomUUID cenv,
          user_id = id_user u,
          user_name = name effectiveProfile,
          user_avatar = profile_picture_url effectiveProfile,
          content = trim (newMessage st),
          created_at = date_created_at cenv,
          timestamp = date_timestamp cenv\<rparr>)"

definition insert_payload :: "Message \<Rightarrow> messages_row" where
  "insert_payload messageData =
     \<lparr>id_msg = id_msg messageData,
      user_id = user_id messageData,
      user_name = user_name messageData,
      user_avatar = user_avatar messageData,
      content = content messageData,
      created_at = created_at messageData\<rparr>"

text \<open>
  \<open>handleSendMessage\<close>. The outcome is the page state, the table, the requests made to
  the datastore and the \<open>message:send\<close> payloads emitted on the socket. The function
  returns nothing and sets no error state.
\<close>

record send_outcome =
  page :: page_state
  table :: messages_table
  requests :: "store_request list"
  emitted :: "Message list"

definition handleSendMessage :: "client_env \<Rightarrow> store_env \<Rightarrow> page_state \<Rightarrow> messages_table \<Rightarrow> send_outcome" where
  "handleSendMessage cenv senv st tbl =
     (if trim (newMessage st) = [] then \<lparr>page = st, table = tbl, requests = [], emitted = []\<rparr>
      else case user st of
        None \<Rightarrow> \<lparr>page = st, table = tbl, requests = [], emitted = []\<rparr>
      | Some u \<Rightarrow>
          let messageData = build_messageData cenv st u;
              row = insert_payload messageData
          in (case insert_message senv row tbl of
                Inl error \<Rightarrow>
                  \<lparr>page = st, table = tbl, requests = [insert_request row], emitted = []\<rparr>
              | Inr tbl1 \<Rightarrow>
                  (let (tbl2, cleanup) = enforce_maximum senv tbl1 in
                   \<lparr>page = st\<lparr>newMessage := []\<rparr>,
                    table = tbl2,
                    requests = insert_request row # cleanup,
                    emitted = (if socket_connected st = Some True then [messageData] else [])\<rparr>)))"


section \<open>Properties of the presence registry\<close>

lemma Map_delete_filter: "Map_delete k es = filter (\<lambda>e. fst e \<noteq> k) es"
  by (induction k es rule: Map_delete.induct) auto

lemma Map_get_map_of: "Map_get k es = map_of es k"
  by (induction k es rule: Map_get.induct) auto

lemma Map_keys_set:
  "Map_keys (Map_set k v es) = (if k \<in> set (Map_keys es) then Map_keys es else Map_keys es @ [k])"
  by (induction k v es rule: Map_set.induct) (auto simp: Map_keys_def)

lemma distinct_Map_set: "distinct (Map_keys es) \<Longrightarrow> distinct (Map_keys (Map_set k v es))"
  by (simp add: Map_keys_set)

lemma distinct_Map_delete: "distinct (Map_keys es) \<Longrightarrow> distinct (Map_keys (Map_delete k es))"
  by (simp add: Map_delete_filter Map_keys_def distinct_map_filter)

lemma set_Map_set:
  "distinct (Map_keys es) \<Longrightarrow> set (Map_set k v es) = insert (k, v) {e \<in> set es. fst e \<noteq> k}"
  by (induction k v es rule: Map_set.induct) (auto simp: Map_keys_def rev_image_eqI)

lemma unregister_delete: "unregister sid reg = Map_delete sid reg"
proof -
  have "Map_get sid reg = None \<Longrightarrow> Map_delete sid reg = reg"
    by (induction sid reg rule: Map_delete.induct) (auto split: if_splits)
  then show ?thesis by (auto simp: unregister_def split: option.splits)
qed

lemma run_registry_snoc: "run_registry (ops @ [x]) = apply_registry_op (run_registry ops) x"
  by (simp add: run_registry_def)

lemma distinct_run_registry: "distinct (Map_keys (run_registry ops))"
proof (induction ops rule: rev_induct)
  case Nil
  then show ?case by (simp add: run_registry_def Map_keys_def)
next
  case (snoc x xs)
  then show ?case
    by (cases x) (simp_all add: run_registry_snoc register_def unregister_delete distinct_Map_set distinct_Map_delete)
qed

lemma registered_Nil: "\<not> registered_and_not_unregistered [] sid u"
  by (simp add: registered_and_not_unregistered_def)


lemma registered_snoc:
  "registered_and_not_unregistered (ops @ [x]) sid u \<longleftrightarrow>
     (case x of
        Register s u' \<Rightarrow> if s = sid then u' = u else registered_and_not_unregistered ops sid u
      | Unregister s \<Rightarrow> s \<noteq> sid \<and> registered_and_not_unregistered ops sid u)"
  (is "?L \<longleftrightarrow> ?R")
proof
  assume ?L
  then obtain before after where
    eq: "ops @ [x] = before @ Register sid u # after" and
    nu: "Unregister sid \<notin> set after" and
    nr: "\<forall>other. Register sid other \<notin> set after"
    unfolding registered_and_not_unregistered_def by blast
  show ?R
  proof (cases after rule: rev_cases)
    case Nil
    with eq have "x = Register sid u" by simp
    then show ?thesis by simp
  next
    case (snoc after' y)
    with eq have ops: "ops = before @ Register sid u # after'" and y: "y = x" by simp_all
    from snoc y nu nr have x: "x \<noteq> Unregister sid" "\<forall>other. x \<noteq> Register sid other"
      by auto
    from snoc nu nr have "Unregister sid \<notin> set after'" "\<forall>other. Register sid other \<notin> set after'"
      by auto
    with ops have "registered_and_not_unregistered ops sid u"
      unfolding registered_and_not_unregistered_def by blast
    with x show ?thesis by (cases x) auto
  qed
next
  assume r: ?R
  show ?L
  proof (cases "x = Register sid u")
    case True
    then have "ops @ [x] = ops @ Register sid u # []" by simp
    then show ?thesis unfolding registered_and_not_unregistered_def by fastforce
  next
    case False
    with r have old: "registered_and_not_unregistered ops sid u"
      and x: "x \<noteq> Unregister sid" "\<forall>other. x \<noteq> Register sid other"
      by (cases x; auto split: if_splits)+
    from old obtain before after where
      "ops = before @ Register sid u # after" "Unregister sid \<notin> set after"
      "\<forall>other. Register sid other \<notin> set after"
      unfolding registered_and_not_unregistered_def by blast
    with x have "ops @ [x] = before @ Register sid u # (after @ [x])"
      "Unregister sid \<notin> set (after @ [x])" "\<forall>other. Register sid other \<notin> set (after @ [x])"
      by auto
    then show ?thesis unfolding registered_and_not_unregistered_def by blast
  qed
qed

lemma set_Map_delete: "set (Map_delete k es) = {e \<in> set es. fst e \<noteq> k}"
  by (auto simp: Map_delete_filter)

lemma run_registry_entries:
  "(sid, u) \<in> set (run_registry ops) \<longleftrightarrow> registered_and_not_unregistered ops sid u"
proof (induction ops rule: rev_induct)
  case Nil
  then show ?case by (simp add: run_registry_def registered_Nil)
next
  case (snoc x xs)
  have d: "distinct (Map_keys (run_registry xs))" by (rule distinct_run_registry)
  show ?case
  proof (cases x)
    case (Register s u')
    then show ?thesis using snoc d
      by (auto simp: run_registry_snoc registered_snoc register_def set_Map_set)
  next
    case (Unregister s)
    then show ?thesis using snoc
      by (auto simp: run_registry_snoc registered_snoc unregister_delete set_Map_delete)
  qed
qed


lemma filter_key_distinct:
  "distinct (map fst es) \<Longrightarrow> (k, v) \<in> set es \<Longrightarrow> filter (\<lambda>e. fst e = k) es = [(k, v)]"
proof (induction es)
  case Nil
  then show ?case by simp
next
  case (Cons e es)
  show ?case
  proof (cases "e = (k, v)")
    case True
    with Cons.prems have "\<forall>x\<in>set es. fst x \<noteq> k" by force
    then have "filter (\<lambda>e. fst e = k) es = []" by (simp add: filter_empty_conv)
    with True show ?thesis by simp
  next
    case False
    with Cons.prems have "(k, v) \<in> set es" "distinct (map fst es)" by auto
    moreover have "fst e \<noteq> k"
    proof -
      from \<open>(k, v) \<in> set es\<close> have "k \<in> fst ` set es" by force
      moreover from Cons.prems(1) have "fst e \<notin> fst ` set es" by simp
      ultimately show ?thesis by blast
    qed
    ultimately show ?thesis using Cons.IH by simp
  qed
qed

lemma connectedUsers_relay_step:
  "connectedUsers (fst (relay_step s e)) = foldl apply_registry_op (connectedUsers s) (registry_ops_of [e])"
proof (cases e)
  case (Pair sid ev)
  then show ?thesis
    by (cases ev)
       (simp_all add: on_connection_def on_user_join_def on_message_send_def on_typing_start_def
          on_typing_stop_def on_disconnect_def register_def unregister_def Let_def
          split: option.splits)
qed

lemma registry_ops_of_Cons: "registry_ops_of (e # es) = registry_ops_of [e] @ registry_ops_of es"
proof (cases e)
  case (Pair sid ev)
  then show ?thesis by (cases ev) simp_all
qed

lemma connectedUsers_relay_run:
  "connectedUsers (fst (relay_run s es)) = foldl apply_registry_op (connectedUsers s) (registry_ops_of es)"
proof (induction es arbitrary: s)
  case Nil
  then show ?case by simp
next
  case (Cons e es)
  have "connectedUsers (fst (relay_run s (e # es))) = connectedUsers (fst (relay_run (fst (relay_step s e)) es))"
    by (simp add: case_prod_beta Let_def)
  also have "\<dots> = foldl apply_registry_op (connectedUsers (fst (relay_step s e))) (registry_ops_of es)"
    by (rule Cons.IH)
  also have "\<dots> = foldl apply_registry_op (connectedUsers s) (registry_ops_of [e] @ registry_ops_of es)"
    by (simp only: connectedUsers_relay_step foldl_append)
  finally show ?case by (simp only: registry_ops_of_Cons[of e es])
qed

text \<open>
  Claim C1. For every finite sequence of register (\<open>user:join\<close>) and unregister
  (\<open>disconnect\<close>) calls, the registry holds exactly the entries whose connection id was
  registered and not unregistered afterwards, each with the participant of its latest
  register; \<open>list()\<close> returns the participants of exactly these entries, one per live
  connection id; the keys are distinct, so there is at most one entry per connection id, and
  registering a connection id again leaves exactly one entry for it, with the new
  participant. The \<open>connectedUsers\<close> map of the server after any sequence of socket events
  is the registry after the corresponding calls.
\<close>

theorem presence_registry_exact:
  "set (run_registry ops) = {(sid, userData). registered_and_not_unregistered ops sid userData}
   \<and> distinct (Map_keys (run_registry ops))
   \<and> set (list_online (run_registry ops)) = {userData. \<exists>sid. registered_and_not_unregistered ops sid userData}
   \<and> length (list_online (run_registry ops)) = card {sid. \<exists>userData. registered_and_not_unregistered ops sid userData}
   \<and> filter (\<lambda>e. fst e = sid) (run_registry (ops @ [Register sid userData])) = [(sid, userData)]
   \<and> connectedUsers (fst (relay_run initial_relay (evs :: (jstring \<times> 'm client_event) list)))
       = run_registry (registry_ops_of evs)"
proof -
  have entries: "set (run_registry ops) = {(sid, userData). registered_and_not_unregistered ops sid userData}"
    for ops
    using run_registry_entries by auto
  have d: "distinct (Map_keys (run_registry ops))" for ops
    by (rule distinct_run_registry)
  have vals: "set (list_online (run_registry ops)) = {userData. \<exists>sid. registered_and_not_unregistered ops sid userData}"
    unfolding list_online_def Map_values_def set_map entries by force
  have keys: "set (Map_keys (run_registry ops)) = {sid. \<exists>userData. registered_and_not_unregistered ops sid userData}"
    unfolding Map_keys_def set_map entries by force
  have "length (list_online (run_registry ops)) = length (Map_keys (run_registry ops))"
    by (simp add: list_online_def Map_values_def Map_keys_def)
  also have "\<dots> = card (set (Map_keys (run_registry ops)))"
    using d by (simp add: distinct_card)
  finally have len: "length (list_online (run_registry ops)) = card {sid. \<exists>userData. registered_and_not_unregistered ops sid userData}"
    by (simp only: keys)
  have "(sid, userData) \<in> set (run_registry (ops @ [Register sid userData]))"
    by (simp add: run_registry_entries registered_snoc)
  with d[of "ops @ [Register sid userData]"]
  have once: "filter (\<lambda>e. fst e = sid) (run_registry (ops @ [Register sid userData])) = [(sid, userData)]"
    unfolding Map_keys_def by (rule filter_key_distinct)
  have relay: "connectedUsers (fst (relay_run initial_relay evs)) = run_registry (registry_ops_of evs)"
    by (simp add: connectedUsers_relay_run run_registry_def initial_relay_def)
  from entries d vals len once relay show ?thesis by blast
qed

theorem presence_registry_exact_witness:
  "list_online (run_registry
      [Register [0x41] \<lparr>userId = [0x31], userName = [0x41, 0x6E, 0x6E], userAvatar = None\<rparr>,
       Register [0x42] \<lparr>userId = [0x32], userName = [0x42, 0x6F, 0x62], userAvatar = None\<rparr>,
       Register [0x41] \<lparr>userId = [0x31], userName = [0x41, 0x6E, 0x6E, 0x61], userAvatar = None\<rparr>,
       Unregister [0x42]])
     = [\<lparr>userId = [0x31], userName = [0x41, 0x6E, 0x6E, 0x61], userAvatar = None\<rparr>]
   \<and> registered_and_not_unregistered
      [Register [0x41] \<lparr>userId = [0x31], userName = [0x41, 0x6E, 0x6E], userAvatar = None\<rparr>,
       Register [0x42] \<lparr>userId = [0x32], userName = [0x42, 0x6F, 0x62], userAvatar = None\<rparr>,
       Register [0x41] \<lparr>userId = [0x31], userName = [0x41, 0x6E, 0x6E, 0x61], userAvatar = None\<rparr>,
       Unregister [0x42]]
      [0x41] \<lparr>userId = [0x31], userName = [0x41, 0x6E, 0x6E, 0x61], userAvatar = None\<rparr>"
proof -
  let ?ops = "[Register [0x41] \<lparr>userId = [0x31], userName = [0x41, 0x6E, 0x6E], userAvatar = None\<rparr>,
       Register [0x42] \<lparr>userId = [0x32], userName = [0x42, 0x6F, 0x62], userAvatar = None\<rparr>,
       Register [0x41] \<lparr>userId = [0x31], userName = [0x41, 0x6E, 0x6E, 0x61], userAvatar = None\<rparr>,
       Unregister [0x42]]"
  let ?anna = "\<lparr>userId = [0x31], userName = [0x41, 0x6E, 0x6E, 0x61], userAvatar = None\<rparr>"
  have run: "run_registry ?ops = [([0x41], ?anna)]"
    by (simp add: run_registry_def register_def unregister_def)
  have eq: "set (run_registry ?ops) = {(sid, userData). registered_and_not_unregistered ?ops sid userData}"
    using presence_registry_exact [of ?ops] by blast
  have "([0x41], ?anna) \<in> set (run_registry ?ops)"
    unfolding run by simp
  then have "([0x41], ?anna) \<in> {(sid, userData). registered_and_not_unregistered ?ops sid userData}"
    by (simp only: eq)
  then have "registered_and_not_unregistered ?ops [0x41] ?anna" by simp
  moreover have "list_online (run_registry ?ops) = [?anna]"
    unfolding run by (simp add: list_online_def Map_values_def)
  ultimately show ?thesis by blast
qed

section \<open>Properties of the relay\<close>

lemma Map_get_Map_delete: "Map_get k (Map_delete k es) = None"
  by (induction k es rule: Map_delete.induct) auto

lemma Map_delete_absent: "Map_get k es = None \<Longrightarrow> Map_delete k es = es"
  by (induction k es rule: Map_delete.induct) (auto split: if_splits)

lemma Map_set_member: "(k, v) \<in> set (Map_set k v es)"
  by (induction k v es rule: Map_set.induct) auto

lemma filter_eq_distinct: "distinct xs \<Longrightarrow> c \<in> set xs \<Longrightarrow> filter (\<lambda>x. x = c) xs = [c]"
proof (induction xs)
  case Nil
  then show ?case by simp
next
  case (Cons x xs)
  show ?case
  proof (cases "x = c")
    case True
    with Cons.prems have "\<forall>y\<in>set xs. y \<noteq> c" by auto
    then have "filter (\<lambda>x. x = c) xs = []" by (simp add: filter_empty_conv)
    with True show ?thesis by simp
  next
    case False
    with Cons show ?thesis by simp
  qed
qed

lemma received_by_map:
  "received_by c (map (\<lambda>x. (x, ev)) xs) = map (\<lambda>x. ev) (filter (\<lambda>x. x = c) xs)"
  by (simp add: received_by_def filter_map comp_def)

lemma received_by_once:
  "distinct xs \<Longrightarrow> c \<in> set xs \<Longrightarrow> received_by c (map (\<lambda>x. (x, ev)) xs) = [ev]"
  by (simp add: received_by_map filter_eq_distinct)

lemma received_by_none:
  "c \<notin> set xs \<Longrightarrow> received_by c (map (\<lambda>x. (x, ev)) xs) = []"
  by (auto simp: received_by_map filter_empty_conv)

lemma received_by_append: "received_by c (xs @ ys) = received_by c xs @ received_by c ys"
  by (simp add: received_by_def)

text \<open>
  Claim C5. For every set of connected sockets and every \<open>message:send\<close> the relay
  receives, the relay sends \<open>message:received\<close> with that payload to every connected
  socket, the sender included, and leaves its state alone. When the socket ids are
  distinct, each connected socket receives the event exactly once; with three connected
  clients, a message of the first is received by all three.
\<close>

theorem message_fan_out:
  assumes "on_message_send s sid message = (s', out)"
  shows "s' = s
    \<and> out = map (\<lambda>c. (c, message_received message)) (sockets s)
    \<and> (\<forall>c\<in>set (sockets s). (c, message_received message) \<in> set out)
    \<and> (sid \<in> set (sockets s) \<longrightarrow> (sid, message_received message) \<in> set out)
    \<and> (distinct (sockets s) \<longrightarrow>
         (\<forall>c\<in>set (sockets s). received_by c out = [message_received message]))"
proof -
  from assms have s: "s' = s" and out: "out = map (\<lambda>c. (c, message_received message)) (sockets s)"
    by (auto simp: on_message_send_def io_emit_def)
  have all: "\<forall>c\<in>set (sockets s). (c, message_received message) \<in> set out"
    unfolding out by simp
  have once: "distinct (sockets s) \<longrightarrow>
      (\<forall>c\<in>set (sockets s). received_by c out = [message_received message])"
    unfolding out by (simp add: received_by_once)
  from s out all once show ?thesis by blast
qed

theorem message_fan_out_witness:
  "on_message_send \<lparr>sockets = [[0x41], [0x42], [0x43]], connectedUsers = []\<rparr> [0x41] [0x68 :: 16 word, 0x69]
     = (\<lparr>sockets = [[0x41], [0x42], [0x43]], connectedUsers = []\<rparr>,
        [([0x41], message_received [0x68, 0x69]),
         ([0x42], message_received [0x68, 0x69]),
         ([0x43], message_received [0x68, 0x69])])
   \<and> received_by [0x41]
        (snd (on_message_send \<lparr>sockets = [[0x41], [0x42], [0x43]], connectedUsers = []\<rparr> [0x41] [0x68 :: 16 word, 0x69]))
       = [message_received [0x68, 0x69]]"
proof -
  let ?s = "\<lparr>sockets = [[0x41], [0x42], [0x43]], connectedUsers = []\<rparr>"
  let ?out = "[([0x41], message_received [0x68 :: 16 word, 0x69]),
         ([0x42], message_received [0x68, 0x69]),
         ([0x43], message_received [0x68, 0x69])]"
  have h: "on_message_send ?s [0x41] [0x68 :: 16 word, 0x69] = (?s, ?out)"
    by (simp add: on_message_send_def io_emit_def)
  have d: "distinct (sockets ?s)" "[0x41] \<in> set (sockets ?s)" by simp_all
  from message_fan_out [OF h] d have "received_by [0x41] ?out = [message_received [0x68, 0x69]]"
    by blast
  with h show ?thesis by simp
qed

text \<open>
  Claim C7. For every \<open>typing:start\<close> and \<open>typing:stop\<close> the relay receives from a
  socket, the \<open>user:typing\<close> or \<open>user:stopped-typing\<close> event goes to every other
  connected socket and never to the sending socket.
\<close>

theorem typing_excludes_sender:
  assumes "on_typing_start s sid uid uname = (s1, out1)"
    and "on_typing_stop s sid uid = (s2, out2)"
  shows "s1 = s \<and> s2 = s
    \<and> out1 = map (\<lambda>c. (c, user_typing uid uname)) (filter (\<lambda>c. c \<noteq> sid) (sockets s))
    \<and> out2 = map (\<lambda>c. (c, user_stopped_typing uid)) (filter (\<lambda>c. c \<noteq> sid) (sockets s))
    \<and> sid \<notin> fst ` set out1 \<and> sid \<notin> fst ` set out2
    \<and> received_by sid out1 = [] \<and> received_by sid out2 = []
    \<and> (\<forall>c\<in>set (sockets s). c \<noteq> sid \<longrightarrow>
          (c, user_typing uid uname) \<in> set out1 \<and> (c, user_stopped_typing uid) \<in> set out2)
    \<and> (distinct (sockets s) \<longrightarrow>
         (\<forall>c\<in>set (sockets s). c \<noteq> sid \<longrightarrow>
            received_by c out1 = [user_typing uid uname]
            \<and> received_by c out2 = [user_stopped_typing uid]))"
proof -
  let ?others = "filter (\<lambda>c. c \<noteq> sid) (sockets s)"
  from assms have st: "s1 = s" "s2 = s"
    and out1: "out1 = map (\<lambda>c. (c, user_typing uid uname)) ?others"
    and out2: "out2 = map (\<lambda>c. (c, user_stopped_typing uid)) ?others"
    by (auto simp: on_typing_start_def on_typing_stop_def socket_broadcast_emit_def)
  have notin: "sid \<notin> set ?others" by simp
  have nofst: "sid \<notin> fst ` set out1" "sid \<notin> fst ` set out2"
    unfolding out1 out2 by force+
  have none: "received_by sid out1 = []" "received_by sid out2 = []"
    unfolding out1 out2 by (rule received_by_none [OF notin])+
  have mem: "\<forall>c\<in>set (sockets s). c \<noteq> sid \<longrightarrow>
      (c, user_typing uid uname) \<in> set out1 \<and> (c, user_stopped_typing uid) \<in> set out2"
    unfolding out1 out2 by simp
  have once: "distinct (sockets s) \<longrightarrow>
         (\<forall>c\<in>set (sockets s). c \<noteq> sid \<longrightarrow>
            received_by c out1 = [user_typing uid uname]
            \<and> received_by c out2 = [user_stopped_typing uid])"
    unfolding out1 out2 by (simp add: received_by_once)
  from st out1 out2 nofst none mem once show ?thesis by blast
qed

theorem typing_excludes_sender_witness:
  "on_typing_start \<lparr>sockets = [[0x41], [0x42], [0x43]], connectedUsers = []\<rparr> [0x41] [0x31] [0x41, 0x6E, 0x6E]
     = (\<lparr>sockets = [[0x41], [0x42], [0x43]], connectedUsers = []\<rparr>,
        [([0x42], user_typing [0x31] [0x41, 0x6E, 0x6E]) :: jstring delivery,
         ([0x43], user_typing [0x31] [0x41, 0x6E, 0x6E])])
   \<and> on_typing_stop \<lparr>sockets = [[0x41], [0x42], [0x43]], connectedUsers = []\<rparr> [0x41] [0x31]
     = (\<lparr>sockets = [[0x41], [0x42], [0x43]], connectedUsers = []\<rparr>,
        [([0x42], user_stopped_typing [0x31]) :: jstring delivery,
         ([0x43], user_stopped_typing [0x31])])
   \<and> received_by [0x41]
        [([0x42], user_typing [0x31] [0x41, 0x6E, 0x6E]) :: jstring delivery,
         ([0x43], user_typing [0x31] [0x41, 0x6E, 0x6E])] = []
   \<and> received_by [0x42]
        [([0x42], user_typing [0x31] [0x41, 0x6E, 0x6E]) :: jstring delivery,
         ([0x43], user_typing [0x31] [0x41, 0x6E, 0x6E])] = [user_typing [0x31] [0x41, 0x6E, 0x6E]]"
proof -
  let ?s = "\<lparr>sockets = [[0x41], [0x42], [0x43]], connectedUsers = []\<rparr>"
  let ?out1 = "[([0x42], user_typing [0x31] [0x41, 0x6E, 0x6E]) :: jstring delivery,
         ([0x43], user_typing [0x31] [0x41, 0x6E, 0x6E])]"
  let ?out2 = "[([0x42], user_stopped_typing [0x31]) :: jstring delivery,
         ([0x43], user_stopped_typing [0x31])]"
  have h1: "on_typing_start ?s [0x41] [0x31] [0x41, 0x6E, 0x6E] = (?s, ?out1)"
    by (simp add: on_typing_start_def socket_broadcast_emit_def)
  have h2: "on_typing_stop ?s [0x41] [0x31] = (?s, ?out2)"
    by (simp add: on_typing_stop_def socket_broadcast_emit_def)
  have d: "distinct (sockets ?s)" "[0x42] \<in> set (sockets ?s)" "[0x42] \<noteq> [0x41 :: 16 word]"
    by simp_all
  from typing_excludes_sender [OF h1 h2] d
  have "received_by [0x41] ?out1 = []"
    and "received_by [0x42] ?out1 = [user_typing [0x31] [0x41, 0x6E, 0x6E]]"
    by blast+
  with h1 h2 show ?thesis by simp
qed

text \<open>
  Claim C8. For every \<open>user:join\<close>, the relay first registers the pair of socket id
  and participant, then sends \<open>user:joined\<close> with the participant and the socket id to
  all connected sockets, then sends \<open>users:online\<close> to the joining socket only, with
  the list of the registry as it is after the registration (so the joiner is in it).
\<close>

theorem join_protocol:
  assumes "on_user_join s sid userData = (s', out)"
  shows "connectedUsers s' = register sid userData (connectedUsers s)
    \<and> sockets s' = sockets s
    \<and> out = map (\<lambda>c. (c, user_joined (userId userData) (userName userData) (userAvatar userData) sid))
               (sockets s)
            @ [(sid, users_online (list_online (connectedUsers s')))]
    \<and> userData \<in> set (list_online (connectedUsers s'))
    \<and> (\<forall>c onlineUsers. c \<noteq> sid \<longrightarrow> users_online onlineUsers \<notin> set (received_by c out))
    \<and> (distinct (sockets s) \<and> sid \<in> set (sockets s) \<longrightarrow>
         received_by sid out =
           [user_joined (userId userData) (userName userData) (userAvatar userData) sid,
            users_online (list_online (connectedUsers s'))])"
proof -
  let ?joined = "user_joined (userId userData) (userName userData) (userAvatar userData) sid"
  from assms have reg: "connectedUsers s' = register sid userData (connectedUsers s)"
    and socks: "sockets s' = sockets s"
    and out: "out = map (\<lambda>c. (c, ?joined)) (sockets s)
        @ [(sid, users_online (list_online (connectedUsers s')))]"
    by (auto simp: on_user_join_def io_emit_def socket_emit_def register_def list_online_def
          Let_def)
  have "(sid, userData) \<in> set (connectedUsers s')"
    unfolding reg register_def by (rule Map_set_member)
  then have listed: "userData \<in> set (list_online (connectedUsers s'))"
    by (force simp: list_online_def Map_values_def)
  have only: "\<forall>c onlineUsers. c \<noteq> sid \<longrightarrow> users_online onlineUsers \<notin> set (received_by c out)"
    unfolding out by (auto simp: received_by_def)
  have order: "distinct (sockets s) \<and> sid \<in> set (sockets s) \<longrightarrow>
      received_by sid out = [?joined, users_online (list_online (connectedUsers s'))]"
  proof
    assume "distinct (sockets s) \<and> sid \<in> set (sockets s)"
    then have a: "received_by sid (map (\<lambda>c. (c, ?joined)) (sockets s)) = [?joined]"
      by (simp add: received_by_once)
    have b: "received_by sid [(sid, users_online (list_online (connectedUsers s')))]
        = [users_online (list_online (connectedUsers s'))]"
      by (simp add: received_by_def)
    show "received_by sid out = [?joined, users_online (list_online (connectedUsers s'))]"
      unfolding out received_by_append a b by simp
  qed
  from reg socks out listed only order show ?thesis by blast
qed

theorem join_protocol_witness:
  "on_user_join
      \<lparr>sockets = [[0x41], [0x42]],
       connectedUsers = [([0x41], \<lparr>userId = [0x31], userName = [0x41, 0x6E, 0x6E], userAvatar = None\<rparr>)]\<rparr>
      [0x42] \<lparr>userId = [0x32], userName = [0x42, 0x6F, 0x62], userAvatar = None\<rparr>
     = (\<lparr>sockets = [[0x41], [0x42]],
         connectedUsers = [([0x41], \<lparr>userId = [0x31], userName = [0x41, 0x6E, 0x6E], userAvatar = None\<rparr>),
                           ([0x42], \<lparr>userId = [0x32], userName = [0x42, 0x6F, 0x62], userAvatar = None\<rparr>)]\<rparr>,
        [([0x41], user_joined [0x32] [0x42, 0x6F, 0x62] None [0x42]) :: jstring delivery,
         ([0x42], user_joined [0x32] [0x42, 0x6F, 0x62] None [0x42]),
         ([0x42], users_online
            [\<lparr>userId = [0x31], userName = [0x41, 0x6E, 0x6E], userAvatar = None\<rparr>,
             \<lparr>userId = [0x32], userName = [0x42, 0x6F, 0x62], userAvatar = None\<rparr>])])"
proof -
  let ?ann = "\<lparr>userId = [0x31], userName = [0x41, 0x6E, 0x6E], userAvatar = None\<rparr>"
  let ?bob = "\<lparr>userId = [0x32], userName = [0x42, 0x6F, 0x62], userAvatar = None\<rparr>"
  let ?s = "\<lparr>sockets = [[0x41], [0x42]], connectedUsers = [([0x41], ?ann)]\<rparr>"
  obtain s' and out :: "jstring delivery list" where h: "on_user_join ?s [0x42] ?bob = (s', out)"
    by (cases "on_user_join ?s [0x42] ?bob :: relay_state \<times> jstring delivery list") blast
  from join_protocol [OF h]
  have reg: "connectedUsers s' = register [0x42] ?bob (connectedUsers ?s)"
    and socks: "sockets s' = sockets ?s"
    and out: "out = map (\<lambda>c. (c, user_joined (userId ?bob) (userName ?bob) (userAvatar ?bob) [0x42]))
               (sockets ?s) @ [([0x42], users_online (list_online (connectedUsers s')))]"
    by blast+
  from reg have reg': "connectedUsers s' = [([0x41], ?ann), ([0x42], ?bob)]"
    by (simp add: register_def)
  from socks reg' have s': "s' = \<lparr>sockets = [[0x41], [0x42]], connectedUsers = [([0x41], ?ann), ([0x42], ?bob)]\<rparr>"
    by (cases s') simp
  from out reg' have "out = [([0x41], user_joined [0x32] [0x42, 0x6F, 0x62] None [0x42]),
         ([0x42], user_joined [0x32] [0x42, 0x6F, 0x62] None [0x42]),
         ([0x42], users_online [?ann, ?bob])]"
    by (simp add: list_online_def Map_values_def)
  with h s' show ?thesis by simp
qed

text \<open>
  Claim C6. When the transport of a socket detaches: if the socket had joined, its entry
  is removed from the registry and one \<open>user:left\<close> event goes to each socket that
  remains, none to the socket that left; if it never joined, the registry is unchanged and
  nothing is sent. Unregistering an unknown connection id changes nothing, and a second
  disconnect of the same socket changes nothing and sends nothing: unregister is
  idempotent.
\<close>

theorem disconnect_unregisters:
  assumes "on_disconnect s sid = (s', out)"
  shows "sockets s' = removeAll sid (sockets s)
    \<and> connectedUsers s' = unregister sid (connectedUsers s)
    \<and> Map_get sid (connectedUsers s') = None
    \<and> (\<forall>user. Map_get sid (connectedUsers s) = Some user \<longrightarrow>
          connectedUsers s' = Map_delete sid (connectedUsers s)
          \<and> out = map (\<lambda>c. (c, user_left (userId user) (userName user) sid))
                     (removeAll sid (sockets s))
          \<and> received_by sid out = []
          \<and> (distinct (sockets s) \<longrightarrow>
               (\<forall>c\<in>set (sockets s). c \<noteq> sid \<longrightarrow>
                  received_by c out = [user_left (userId user) (userName user) sid])))
    \<and> (Map_get sid (connectedUsers s) = None \<longrightarrow> connectedUsers s' = connectedUsers s \<and> out = [])
    \<and> on_disconnect s' sid = (s', [])
    \<and> unregister sid (unregister sid reg) = unregister sid reg
    \<and> (Map_get sid reg = None \<longrightarrow> unregister sid reg = reg)"
proof -
  have unreg: "unregister sid r = Map_delete sid r" for r :: "(jstring, UserSocket) js_map"
    by (auto simp: unregister_def Map_delete_absent split: option.splits)
  from assms have socks: "sockets s' = removeAll sid (sockets s)"
    by (auto simp: on_disconnect_def Let_def split: option.splits)
  from assms have reg: "connectedUsers s' = unregister sid (connectedUsers s)"
    by (auto simp: on_disconnect_def unregister_def Let_def split: option.splits)
  have gone: "Map_get sid (connectedUsers s') = None"
    unfolding reg unreg by (rule Map_get_Map_delete)
  have joined: "\<forall>user. Map_get sid (connectedUsers s) = Some user \<longrightarrow>
          connectedUsers s' = Map_delete sid (connectedUsers s)
          \<and> out = map (\<lambda>c. (c, user_left (userId user) (userName user) sid))
                     (removeAll sid (sockets s))
          \<and> received_by sid out = []
          \<and> (distinct (sockets s) \<longrightarrow>
               (\<forall>c\<in>set (sockets s). c \<noteq> sid \<longrightarrow>
                  received_by c out = [user_left (userId user) (userName user) sid]))"
  proof (intro allI impI)
    fix user
    assume u: "Map_get sid (connectedUsers s) = Some user"
    let ?left = "user_left (userId user) (userName user) sid"
    from assms u have out: "out = map (\<lambda>c. (c, ?left)) (removeAll sid (sockets s))"
      by (auto simp: on_disconnect_def io_emit_def Let_def)
    have a: "connectedUsers s' = Map_delete sid (connectedUsers s)"
      unfolding reg unreg ..
    have b: "received_by sid out = []"
      unfolding out by (simp add: received_by_none)
    have c: "distinct (sockets s) \<longrightarrow>
        (\<forall>c\<in>set (sockets s). c \<noteq> sid \<longrightarrow> received_by c out = [?left])"
      unfolding out by (simp add: received_by_once distinct_removeAll)
    from a out b c show "connectedUsers s' = Map_delete sid (connectedUsers s)
          \<and> out = map (\<lambda>c. (c, ?left)) (removeAll sid (sockets s))
          \<and> received_by sid out = []
          \<and> (distinct (sockets s) \<longrightarrow>
               (\<forall>c\<in>set (sockets s). c \<noteq> sid \<longrightarrow> received_by c out = [?left]))"
      by blast
  qed
  from assms have never: "Map_get sid (connectedUsers s) = None \<longrightarrow>
      connectedUsers s' = connectedUsers s \<and> out = []"
    by (auto simp: on_disconnect_def Let_def)
  have again: "on_disconnect s' sid = (s', [])"
    using gone socks by (simp add: on_disconnect_def Let_def)
  have idem: "unregister sid (unregister sid reg) = unregister sid reg"
    by (simp add: unreg Map_delete_absent Map_get_Map_delete)
  have absent: "Map_get sid reg = None \<longrightarrow> unregister sid reg = reg"
    by (simp add: unregister_def)
  from socks reg gone joined never again idem absent show ?thesis by blast
qed

theorem disconnect_unregisters_witness:
  "on_disconnect
      \<lparr>sockets = [[0x41], [0x42], [0x43]],
       connectedUsers = [([0x41], \<lparr>userId = [0x31], userName = [0x41, 0x6E, 0x6E], userAvatar = None\<rparr>),
                         ([0x42], \<lparr>userId = [0x32], userName = [0x42, 0x6F, 0x62], userAvatar = None\<rparr>)]\<rparr>
      [0x41]
     = (\<lparr>sockets = [[0x42], [0x43]],
         connectedUsers = [([0x42], \<lparr>userId = [0x32], userName = [0x42, 0x6F, 0x62], userAvatar = None\<rparr>)]\<rparr>,
        [([0x42], user_left [0x31] [0x41, 0x6E, 0x6E] [0x41]) :: jstring delivery,
         ([0x43], user_left [0x31] [0x41, 0x6E, 0x6E] [0x41])])
   \<and> on_disconnect
      \<lparr>sockets = [[0x42], [0x43]],
       connectedUsers = [([0x42], \<lparr>userId = [0x32], userName = [0x42, 0x6F, 0x62], userAvatar = None\<rparr>)]\<rparr>
      [0x41]
     = (\<lparr>sockets = [[0x42], [0x43]],
         connectedUsers = [([0x42], \<lparr>userId = [0x32], userName = [0x42, 0x6F, 0x62], userAvatar = None\<rparr>)]\<rparr>,
        [] :: jstring delivery list)"
proof -
  let ?ann = "\<lparr>userId = [0x31], userName = [0x41, 0x6E, 0x6E], userAvatar = None\<rparr>"
  let ?bob = "\<lparr>userId = [0x32], userName = [0x42, 0x6F, 0x62], userAvatar = None\<rparr>"
  let ?s = "\<lparr>sockets = [[0x41], [0x42], [0x43]], connectedUsers = [([0x41], ?ann), ([0x42], ?bob)]\<rparr>"
  let ?s' = "\<lparr>sockets = [[0x42], [0x43]], connectedUsers = [([0x42], ?bob)]\<rparr>"
  let ?out = "[([0x42], user_left [0x31] [0x41, 0x6E, 0x6E] [0x41]) :: jstring delivery,
         ([0x43], user_left [0x31] [0x41, 0x6E, 0x6E] [0x41])]"
  have h: "on_disconnect ?s [0x41] = (?s', ?out)"
    by (simp add: on_disconnect_def io_emit_def)
  from disconnect_unregisters [OF h]
  have "on_disconnect ?s' [0x41] = (?s', [] :: jstring delivery list)" by blast
  with h show ?thesis by simp
qed


section \<open>Properties of the \<open>messages\<close> table\<close>

text \<open>
  An ordered read returns all rows of the table in ascending order of \<open>created_at\<close>, and
  every such arrangement of the rows is the result of the read for some choice of
  \<open>tie_rank\<close>: the model leaves the order of ties as open as the query does.
\<close>

lemma distinct_map_insort_key:
  "distinct (map g (insort_key f x xs)) \<longleftrightarrow> g x \<notin> g ` set xs \<and> distinct (map g xs)"
  by (induction xs) (auto simp: set_insort_key)

lemma distinct_map_sort_key: "distinct (map g (sort_key f xs)) \<longleftrightarrow> distinct (map g xs)"
  by (induction xs) (simp_all add: distinct_map_insort_key)

lemma mset_select_ordered:
  "policy_view_messages env \<Longrightarrow> mset (select_ordered env tbl) = mset tbl"
  by (simp add: select_ordered_def)

lemma length_select_ordered:
  "policy_view_messages env \<Longrightarrow> length (select_ordered env tbl) = length tbl"
  by (simp add: select_ordered_def)

lemma set_select_ordered:
  "policy_view_messages env \<Longrightarrow> set (select_ordered env tbl) = set tbl"
  by (simp add: select_ordered_def)

lemma sorted_select_ordered: "sorted (map created_at (select_ordered env tbl))"
  by (simp add: select_ordered_def)

lemma rank_in_list:
  assumes "distinct xs" and "i < length xs"
  shows "length (takeWhile (\<lambda>x. x \<noteq> xs ! i) xs) = i"
proof -
  have "takeWhile (\<lambda>x. x \<noteq> xs ! i) xs = take i xs"
  proof (rule takeWhile_eq_take_P_nth)
    fix j assume "j < i" and "j < length xs"
    with assms show "xs ! j \<noteq> xs ! i" by (simp add: nth_eq_iff_index_eq)
  next
    show "i < length xs \<Longrightarrow> \<not> xs ! i \<noteq> xs ! i" by simp
  qed
  with assms(2) show ?thesis by simp
qed

lemma sort_key_rank_in_list:
  assumes "mset xs = mset tbl" and "distinct tbl"
  shows "sort_key (\<lambda>r. length (takeWhile (\<lambda>x. x \<noteq> r) xs)) tbl = xs"
proof -
  let ?rank = "\<lambda>r. length (takeWhile (\<lambda>x. x \<noteq> r) xs)"
  from assms have dx: "distinct xs" by (metis mset_eq_imp_distinct_iff)
  have ranks: "map ?rank xs = [0..<length xs]"
    by (rule nth_equalityI) (simp_all add: rank_in_list [OF dx])
  have "distinct (map ?rank xs)" by (simp only: ranks distinct_upt)
  then have inj: "inj_on ?rank (set xs)" by (simp add: distinct_map)
  show ?thesis
  proof (rule properties_for_sort_key)
    show "mset xs = mset tbl" by (rule assms(1))
  next
    fix k assume k: "k \<in> set xs"
    from assms(1) have sets: "set tbl = set xs" by (metis set_mset_mset)
    have "filter (\<lambda>x. ?rank k = ?rank x) xs = filter (\<lambda>x. x = k) xs"
      using inj k by (intro filter_cong refl) (auto dest: inj_onD)
    moreover have "filter (\<lambda>x. ?rank k = ?rank x) tbl = filter (\<lambda>x. x = k) tbl"
      using inj k sets by (intro filter_cong refl) (auto dest: inj_onD)
    moreover have "filter (\<lambda>x. x = k) xs = [k]"
      using dx k by (rule filter_eq_distinct)
    moreover have "filter (\<lambda>x. x = k) tbl = [k]"
      using assms(2) k sets by (simp add: filter_eq_distinct)
    ultimately show "filter (\<lambda>x. ?rank k = ?rank x) xs = filter (\<lambda>x. ?rank k = ?rank x) tbl"
      by simp
  next
    show "sorted (map ?rank xs)" by (simp only: ranks sorted_upt)
  qed
qed

lemma select_ordered_any_tie_order:
  assumes "mset rows = mset tbl" and "sorted (map created_at rows)" and "distinct tbl"
    and "policy_view_messages env"
  shows "\<exists>rank. select_ordered (env\<lparr>tie_rank := rank\<rparr>) tbl = rows"
proof -
  let ?rank = "\<lambda>r. length (takeWhile (\<lambda>x. x \<noteq> r) rows)"
  from assms(1,3) have "sort_key ?rank tbl = rows" by (rule sort_key_rank_in_list)
  with assms(2,4) have "select_ordered (env\<lparr>tie_rank := ?rank\<rparr>) tbl = rows"
    by (simp add: select_ordered_def policy_view_messages_def sort_key_id_if_sorted)
  then show ?thesis by blast
qed

lemma sorted_take_le_drop:
  assumes "sorted (map f xs)" and "d \<in> set (take k xs)" and "r \<in> set (drop k xs)"
  shows "f d \<le> f r"
proof -
  from assms(1) have "sorted (map f (take k xs) @ map f (drop k xs))"
    by (simp flip: map_append)
  with assms(2,3) show ?thesis by (auto simp: sorted_append)
qed

lemma handleSendMessage_inserted:
  assumes "trim (newMessage st) \<noteq> []" and "user st = Some u"
    and "insert_message senv (insert_payload (build_messageData cenv st u)) tbl = Inr tbl1"
  shows "handleSendMessage cenv senv st tbl =
     \<lparr>page = st\<lparr>newMessage := []\<rparr>,
      table = fst (enforce_maximum senv tbl1),
      requests = insert_request (insert_payload (build_messageData cenv st u))
                   # snd (enforce_maximum senv tbl1),
      emitted = (if socket_connected st = Some True then [build_messageData cenv st u] else [])\<rparr>"
  using assms by (simp add: handleSendMessage_def Let_def case_prod_beta)

lemma trim_empty_iff: "trim s = [] \<longleftrightarrow> (\<forall>c\<in>set s. is_js_whitespace c)"
proof
  assume "trim s = []"
  then have all: "\<forall>c\<in>set (dropWhile is_js_whitespace s). is_js_whitespace c"
    by (simp add: trim_def)
  have "dropWhile is_js_whitespace s = []"
  proof (rule ccontr)
    assume ne: "dropWhile is_js_whitespace s \<noteq> []"
    then have "\<not> is_js_whitespace (hd (dropWhile is_js_whitespace s))"
      by (rule hd_dropWhile)
    moreover from ne have "hd (dropWhile is_js_whitespace s) \<in> set (dropWhile is_js_whitespace s)"
      by (rule hd_in_set)
    ultimately show False using all by blast
  qed
  then show "\<forall>c\<in>set s. is_js_whitespace c"
    by simp
next
  assume "\<forall>c\<in>set s. is_js_whitespace c"
  then have "dropWhile is_js_whitespace s = []"
    by simp
  then show "trim s = []"
    unfolding trim_def by (simp only: rev.simps dropWhile.simps)
qed

lemma handleSendMessage_blank:
  "trim (newMessage st) = [] \<Longrightarrow>
     handleSendMessage cenv senv st tbl = \<lparr>page = st, table = tbl, requests = [], emitted = []\<rparr>"
  by (simp add: handleSendMessage_def)

lemma handleSendMessage_no_user:
  "user st = None \<Longrightarrow>
     handleSendMessage cenv senv st tbl = \<lparr>page = st, table = tbl, requests = [], emitted = []\<rparr>"
  by (simp add: handleSendMessage_def)

lemma handleSendMessage_insert_failed:
  assumes "trim (newMessage st) \<noteq> []" and "user st = Some u"
    and "insert_message senv (insert_payload (build_messageData cenv st u)) tbl = Inl err"
  shows "handleSendMessage cenv senv st tbl =
     \<lparr>page = st, table = tbl,
      requests = [insert_request (insert_payload (build_messageData cenv st u))],
      emitted = []\<rparr>"
  using assms by (simp add: handleSendMessage_def Let_def)

lemma set_auto_delete_old_messages:
  "set (auto_delete_old_messages env tbl) =
     {r \<in> set tbl. \<not> (auth_uid env = Some (user_id r) \<and> created_at r < server_now env - three_days)}"
  by (auto simp: auto_delete_old_messages_def policy_delete_own_messages_def)

lemma set_delete_in:
  "set (delete_in env ids tbl) =
     {r \<in> set tbl. \<not> (id_msg r \<in> set ids \<and> auth_uid env = Some (user_id r))}"
  by (auto simp: delete_in_def policy_delete_own_messages_def)

lemma delete_in_Nil: "delete_in env [] tbl = tbl"
  by (simp add: delete_in_def)

lemma enforce_maximum_requests_oldest:
  assumes "\<not> select_fails env" and "\<not> delete_fails env" and "policy_view_messages env"
  shows "enforce_maximum env tbl =
     (delete_in env (map id_msg (take (length tbl - 50) (select_ordered env tbl))) tbl,
      select_request #
        (if 50 < length tbl
         then [delete_request (map id_msg (take (length tbl - 50) (select_ordered env tbl)))]
         else []))"
proof (cases "50 < length tbl")
  case True
  then have "select_ordered env tbl \<noteq> []"
    using length_select_ordered [OF assms(3), of tbl] by auto
  with True assms show ?thesis
    by (simp add: enforce_maximum_def Let_def length_select_ordered take_map comp_def)
next
  case False
  with assms show ?thesis
    by (simp add: enforce_maximum_def Let_def length_select_ordered delete_in_Nil)
qed

text \<open>
  Claim C9. The age-expiry statement that the trigger runs after each insert is meant to
  delete every message older than three days. It runs as the inserting user under the
  policy "Users can delete own messages": here Ann inserts a message while the table holds
  a message of Bob and a message of Ann, both four days old. Ann's old message is deleted,
  Bob's old message stays in the table, and the read that follows returns it.
\<close>

theorem age_expiry_spares_other_users:
  "insert_message
      \<lparr>auth_uid = Some [0x75, 0x31], server_now = 432000000000, tie_rank = (\<lambda>r. 0),
        insert_fails = False, select_fails = False, delete_fails = False\<rparr>
      \<lparr>id_msg = [0x6D, 0x33], user_id = [0x75, 0x31], user_name = [0x41, 0x6E, 0x6E],
        user_avatar = None, content = [0x68, 0x69], created_at = 432000000000\<rparr>
      [\<lparr>id_msg = [0x6D, 0x31], user_id = [0x75, 0x32], user_name = [0x42, 0x6F, 0x62],
        user_avatar = None, content = [0x68, 0x69], created_at = 86400000000\<rparr>,
       \<lparr>id_msg = [0x6D, 0x32], user_id = [0x75, 0x31], user_name = [0x41, 0x6E, 0x6E],
        user_avatar = None, content = [0x68, 0x69], created_at = 86400000000\<rparr>]
    = Inr
      [\<lparr>id_msg = [0x6D, 0x31], user_id = [0x75, 0x32], user_name = [0x42, 0x6F, 0x62],
        user_avatar = None, content = [0x68, 0x69], created_at = 86400000000\<rparr>,
       \<lparr>id_msg = [0x6D, 0x33], user_id = [0x75, 0x31], user_name = [0x41, 0x6E, 0x6E],
        user_avatar = None, content = [0x68, 0x69], created_at = 432000000000\<rparr>]
   \<and> loadMessages
      \<lparr>auth_uid = Some [0x75, 0x31], server_now = 432000000000, tie_rank = (\<lambda>r. 0),
        insert_fails = False, select_fails = False, delete_fails = False\<rparr>
      [\<lparr>id_msg = [0x6D, 0x31], user_id = [0x75, 0x32], user_name = [0x42, 0x6F, 0x62],
        user_avatar = None, content = [0x68, 0x69], created_at = 86400000000\<rparr>,
       \<lparr>id_msg = [0x6D, 0x33], user_id = [0x75, 0x31], user_name = [0x41, 0x6E, 0x6E],
        user_avatar = None, content = [0x68, 0x69], created_at = 432000000000\<rparr>]
      []
    = [\<lparr>id_msg = [0x6D, 0x31], user_id = [0x75, 0x32], user_name = [0x42, 0x6F, 0x62],
        user_avatar = None, content = [0x68, 0x69], created_at = 86400000000\<rparr>,
       \<lparr>id_msg = [0x6D, 0x33], user_id = [0x75, 0x31], user_name = [0x41, 0x6E, 0x6E],
        user_avatar = None, content = [0x68, 0x69], created_at = 432000000000\<rparr>]
   \<and> (86400000000 :: int) < 432000000000 - three_days"
  by (simp add: insert_message_def auto_delete_old_messages_def policy_insert_own_messages_def
        policy_delete_own_messages_def policy_view_messages_def loadMessages_def select_ordered_def
        three_days_def)

section \<open>Properties of the chat page\<close>

text \<open>
  Claim C2. After a successful insert the clean-up reads all messages in ascending order
  of creation time and, when there are more than 50, requests the deletion of the oldest
  (count - 50) ids, which is meant to leave the 50 most recent. The delete runs under the
  policy "Users can delete own messages": here the table holds 59 messages created at times
  0 to 58, the 30 oldest written by Bob and the others by Ann, and Ann sends a message at
  time 59. The deletion of the 10 oldest ids is requested, all ten rows are Bob's, and all
  60 messages remain.
\<close>

theorem trim_spares_other_users:
  "length (table (handleSendMessage
      \<lparr>randomUUID = [0x6D, 0x31], date_timestamp = 59, date_created_at = 59\<rparr>
      \<lparr>auth_uid = Some [0x75, 0x31], server_now = 100, tie_rank = (\<lambda>r. 0),
        insert_fails = False, select_fails = False, delete_fails = False\<rparr>
      \<lparr>user = Some \<lparr>id_user = [0x75, 0x31], name = [0x41, 0x6E, 0x6E], profile_picture_url = None\<rparr>,
       profile = None, newMessage = [0x68, 0x69], socket_connected = Some True\<rparr>
      (map (\<lambda>i. \<lparr>id_msg = [word_of_nat i],
                  user_id = (if i < 30 then [0x75, 0x32] else [0x75, 0x31]),
                  user_name = (if i < 30 then [0x42, 0x6F, 0x62] else [0x41, 0x6E, 0x6E]),
                  user_avatar = None, content = [0x68, 0x69], created_at = int i\<rparr>) [0..<59]))) = 60
   \<and> requests (handleSendMessage
      \<lparr>randomUUID = [0x6D, 0x31], date_timestamp = 59, date_created_at = 59\<rparr>
      \<lparr>auth_uid = Some [0x75, 0x31], server_now = 100, tie_rank = (\<lambda>r. 0),
        insert_fails = False, select_fails = False, delete_fails = False\<rparr>
      \<lparr>user = Some \<lparr>id_user = [0x75, 0x31], name = [0x41, 0x6E, 0x6E], profile_picture_url = None\<rparr>,
       profile = None, newMessage = [0x68, 0x69], socket_connected = Some True\<rparr>
      (map (\<lambda>i. \<lparr>id_msg = [word_of_nat i],
                  user_id = (if i < 30 then [0x75, 0x32] else [0x75, 0x31]),
                  user_name = (if i < 30 then [0x42, 0x6F, 0x62] else [0x41, 0x6E, 0x6E]),
                  user_avatar = None, content = [0x68, 0x69], created_at = int i\<rparr>) [0..<59]))
     = [insert_request \<lparr>id_msg = [0x6D, 0x31], user_id = [0x75, 0x31], user_name = [0x41, 0x6E, 0x6E],
                        user_avatar = None, content = [0x68, 0x69], created_at = 59\<rparr>,
        select_request,
        delete_request [[0], [1], [2], [3], [4], [5], [6], [7], [8], [9]]]
   \<and> map created_at (table (handleSendMessage
      \<lparr>randomUUID = [0x6D, 0x31], date_timestamp = 59, date_created_at = 59\<rparr>
      \<lparr>auth_uid = Some [0x75, 0x31], server_now = 100, tie_rank = (\<lambda>r. 0),
        insert_fails = False, select_fails = False, delete_fails = False\<rparr>
      \<lparr>user = Some \<lparr>id_user = [0x75, 0x31], name = [0x41, 0x6E, 0x6E], profile_picture_url = None\<rparr>,
       profile = None, newMessage = [0x68, 0x69], socket_connected = Some True\<rparr>
      (map (\<lambda>i. \<lparr>id_msg = [word_of_nat i],
                  user_id = (if i < 30 then [0x75, 0x32] else [0x75, 0x31]),
                  user_name = (if i < 30 then [0x42, 0x6F, 0x62] else [0x41, 0x6E, 0x6E]),
                  user_avatar = None, content = [0x68, 0x69], created_at = int i\<rparr>) [0..<59]))) = map int [0..<60]"
  by code_simp

text \<open>
  Claim C4, as amended. On attach, when the session is signed in and the read succeeds, the
  page loads at most 100 messages: the first 100 of the table's messages in ascending order
  of creation time, which are 100 oldest messages of the table (no message left out is
  older than a loaded one), in ascending order. They are the most recent 100, and all the
  messages, when the table holds at most 100 messages.
\<close>

theorem loadMessages_oldest_first:
  assumes "\<not> select_fails env" and "policy_view_messages env"
  shows "loadMessages env tbl messages = take 100 (select_ordered env tbl)
    \<and> mset (select_ordered env tbl) = mset tbl
    \<and> sorted (map created_at (select_ordered env tbl))
    \<and> sorted (map created_at (loadMessages env tbl messages))
    \<and> length (loadMessages env tbl messages) = min 100 (length tbl)
    \<and> mset (loadMessages env tbl messages) + mset (drop 100 (select_ordered env tbl)) = mset tbl
    \<and> (\<forall>l\<in>set (loadMessages env tbl messages). \<forall>r\<in>set (drop 100 (select_ordered env tbl)).
          created_at l \<le> created_at r)
    \<and> (length tbl \<le> 100 \<longrightarrow>
          loadMessages env tbl messages = most_recent_ascending 100 (select_ordered env tbl)
          \<and> mset (loadMessages env tbl messages) = mset tbl)"
proof -
  let ?rows = "select_ordered env tbl"
  from assms(1) have lm: "loadMessages env tbl messages = take 100 ?rows"
    by (simp add: loadMessages_def)
  have perm: "mset ?rows = mset tbl"
    using assms(2) by (rule mset_select_ordered)
  have len_rows: "length ?rows = length tbl"
    using assms(2) by (rule length_select_ordered)
  have srt_rows: "sorted (map created_at ?rows)"
    by (rule sorted_select_ordered)
  have srt: "sorted (map created_at (loadMessages env tbl messages))"
    unfolding lm using srt_rows by (simp add: take_map [symmetric])
  have len: "length (loadMessages env tbl messages) = min 100 (length tbl)"
    unfolding lm by (simp add: len_rows min.commute)
  have "mset (take 100 ?rows) + mset (drop 100 ?rows) = mset ?rows"
    by (simp only: mset_append [symmetric] append_take_drop_id)
  then have split: "mset (loadMessages env tbl messages) + mset (drop 100 ?rows) = mset tbl"
    by (simp only: lm perm)
  have old: "\<forall>l\<in>set (loadMessages env tbl messages). \<forall>r\<in>set (drop 100 ?rows).
          created_at l \<le> created_at r"
    unfolding lm using srt_rows by (blast intro: sorted_take_le_drop)
  have small: "length tbl \<le> 100 \<longrightarrow>
          loadMessages env tbl messages = most_recent_ascending 100 ?rows
          \<and> mset (loadMessages env tbl messages) = mset tbl"
    unfolding lm by (simp add: most_recent_ascending_def len_rows perm)
  from lm perm srt_rows srt len split old small show ?thesis by blast
qed

theorem loadMessages_oldest_first_witness:
  "loadMessages
      \<lparr>auth_uid = Some [0x75, 0x31], server_now = 100, tie_rank = (\<lambda>r. if id_msg r = [0x6D, 0x32] then 0 else 1),
        insert_fails = False, select_fails = False, delete_fails = False\<rparr>
      [\<lparr>id_msg = [0x6D, 0x31], user_id = [0x75, 0x31], user_name = [0x41, 0x6E, 0x6E],
        user_avatar = None, content = [0x68, 0x69], created_at = 10\<rparr>,
       \<lparr>id_msg = [0x6D, 0x32], user_id = [0x75, 0x31], user_name = [0x41, 0x6E, 0x6E],
        user_avatar = None, content = [0x68, 0x69], created_at = 10\<rparr>,
       \<lparr>id_msg = [0x6D, 0x33], user_id = [0x75, 0x31], user_name = [0x41, 0x6E, 0x6E],
        user_avatar = None, content = [0x68, 0x69], created_at = 5\<rparr>]
      []
     = [\<lparr>id_msg = [0x6D, 0x33], user_id = [0x75, 0x31], user_name = [0x41, 0x6E, 0x6E],
        user_avatar = None, content = [0x68, 0x69], created_at = 5\<rparr>,
        \<lparr>id_msg = [0x6D, 0x32], user_id = [0x75, 0x31], user_name = [0x41, 0x6E, 0x6E],
        user_avatar = None, content = [0x68, 0x69], created_at = 10\<rparr>,
        \<lparr>id_msg = [0x6D, 0x31], user_id = [0x75, 0x31], user_name = [0x41, 0x6E, 0x6E],
        user_avatar = None, content = [0x68, 0x69], created_at = 10\<rparr>]"
proof -
  let ?env = "\<lparr>auth_uid = Some [0x75, 0x31], server_now = 100, tie_rank = (\<lambda>r. if id_msg r = [0x6D, 0x32] then 0 else 1),
        insert_fails = False, select_fails = False, delete_fails = False\<rparr>"
  have h1: "\<not> select_fails ?env" by simp
  have h2: "policy_view_messages ?env" by (simp add: policy_view_messages_def)
  from loadMessages_oldest_first [OF h1 h2]
  have "loadMessages ?env tbl messages = take 100 (select_ordered ?env tbl)" for tbl messages
    by blast
  then show ?thesis by (simp add: select_ordered_def policy_view_messages_def)
qed

text \<open>
  Claim C4 as stated fails on a table of 101 messages created at times 0 to 100: the page
  loads the messages of times 0 to 99, the most recent 100 are those of times 1 to 100.
\<close>

theorem loadMessages_most_recent_counterexample:
  "map created_at (loadMessages
      \<lparr>auth_uid = Some [0x75, 0x31], server_now = 100, tie_rank = (\<lambda>r. 0),
        insert_fails = False, select_fails = False, delete_fails = False\<rparr>
      (map (\<lambda>i. \<lparr>id_msg = [word_of_nat i], user_id = [0x75, 0x31], user_name = [0x41, 0x6E, 0x6E],
                  user_avatar = None, content = [0x68, 0x69], created_at = int i\<rparr>) [0..<101])
      [])
     = map int [0..<100]
   \<and> map created_at (most_recent_ascending 100 (select_ordered
      \<lparr>auth_uid = Some [0x75, 0x31], server_now = 100, tie_rank = (\<lambda>r. 0),
        insert_fails = False, select_fails = False, delete_fails = False\<rparr>
      (map (\<lambda>i. \<lparr>id_msg = [word_of_nat i], user_id = [0x75, 0x31], user_name = [0x41, 0x6E, 0x6E],
                  user_avatar = None, content = [0x68, 0x69], created_at = int i\<rparr>) [0..<101])))
     = map int [1..<101]
   \<and> loadMessages
      \<lparr>auth_uid = Some [0x75, 0x31], server_now = 100, tie_rank = (\<lambda>r. 0),
        insert_fails = False, select_fails = False, delete_fails = False\<rparr>
      (map (\<lambda>i. \<lparr>id_msg = [word_of_nat i], user_id = [0x75, 0x31], user_name = [0x41, 0x6E, 0x6E],
                  user_avatar = None, content = [0x68, 0x69], created_at = int i\<rparr>) [0..<101])
      []
     \<noteq> most_recent_ascending 100 (select_ordered
      \<lparr>auth_uid = Some [0x75, 0x31], server_now = 100, tie_rank = (\<lambda>r. 0),
        insert_fails = False, select_fails = False, delete_fails = False\<rparr>
      (map (\<lambda>i. \<lparr>id_msg = [word_of_nat i], user_id = [0x75, 0x31], user_name = [0x41, 0x6E, 0x6E],
                  user_avatar = None, content = [0x68, 0x69], created_at = int i\<rparr>) [0..<101]))"
  by code_simp

text \<open>
  Claim C10. When the draft is empty or white space only, or when no user is signed in,
  sending does nothing: no request goes to the datastore (no insert, no clean-up), nothing
  is emitted on the socket, the table and the page state, the draft included, are
  unchanged. In every other case an insert is requested.
\<close>

theorem blank_or_signed_out_is_noop:
  "((\<forall>c\<in>set (newMessage st). is_js_whitespace c) \<or> user st = None \<longrightarrow>
      handleSendMessage cenv senv st tbl = \<lparr>page = st, table = tbl, requests = [], emitted = []\<rparr>)
   \<and> (requests (handleSendMessage cenv senv st tbl) = [] \<longleftrightarrow>
        (\<forall>c\<in>set (newMessage st). is_js_whitespace c) \<or> user st = None)"
proof -
  have noop: "(\<forall>c\<in>set (newMessage st). is_js_whitespace c) \<or> user st = None \<Longrightarrow>
      handleSendMessage cenv senv st tbl = \<lparr>page = st, table = tbl, requests = [], emitted = []\<rparr>"
    using handleSendMessage_blank handleSendMessage_no_user trim_empty_iff by blast
  have "requests (handleSendMessage cenv senv st tbl) \<noteq> []"
    if "\<not> (\<forall>c\<in>set (newMessage st). is_js_whitespace c)" and "user st \<noteq> None"
  proof -
    from that have t: "trim (newMessage st) \<noteq> []" by (simp add: trim_empty_iff)
    from that obtain u where u: "user st = Some u" by blast
    show ?thesis
    proof (cases "insert_message senv (insert_payload (build_messageData cenv st u)) tbl")
      case (Inl err)
      with t u show ?thesis by (simp add: handleSendMessage_insert_failed)
    next
      case (Inr tbl1)
      with t u show ?thesis by (simp add: handleSendMessage_inserted)
    qed
  qed
  with noop show ?thesis by fastforce
qed

theorem blank_or_signed_out_is_noop_witness:
  "handleSendMessage
      \<lparr>randomUUID = [0x6D, 0x31], date_timestamp = 59, date_created_at = 59\<rparr>
      \<lparr>auth_uid = Some [0x75, 0x31], server_now = 100, tie_rank = (\<lambda>r. 0),
        insert_fails = False, select_fails = False, delete_fails = False\<rparr>
      \<lparr>user = Some \<lparr>id_user = [0x75, 0x31], name = [0x41, 0x6E, 0x6E], profile_picture_url = None\<rparr>,
       profile = None, newMessage = [0x20, 0x09, 0x3000, 0x0A], socket_connected = Some True\<rparr>
      []
    = \<lparr>page = \<lparr>user = Some \<lparr>id_user = [0x75, 0x31], name = [0x41, 0x6E, 0x6E], profile_picture_url = None\<rparr>,
                profile = None, newMessage = [0x20, 0x09, 0x3000, 0x0A], socket_connected = Some True\<rparr>,
       table = [], requests = [], emitted = []\<rparr>
   \<and> handleSendMessage
      \<lparr>randomUUID = [0x6D, 0x31], date_timestamp = 59, date_created_at = 59\<rparr>
      \<lparr>auth_uid = Some [0x75, 0x31], server_now = 100, tie_rank = (\<lambda>r. 0),
        insert_fails = False, select_fails = False, delete_fails = False\<rparr>
      \<lparr>user = None, profile = None, newMessage = [0x68, 0x69], socket_connected = Some True\<rparr>
      []
    = \<lparr>page = \<lparr>user = None, profile = None, newMessage = [0x68, 0x69], socket_connected = Some True\<rparr>,
       table = [], requests = [], emitted = []\<rparr>"
proof -
  let ?cenv = "\<lparr>randomUUID = [0x6D, 0x31], date_timestamp = 59, date_created_at = 59\<rparr>"
  let ?senv = "\<lparr>auth_uid = Some [0x75, 0x31], server_now = 100, tie_rank = (\<lambda>r. 0),
        insert_fails = False, select_fails = False, delete_fails = False\<rparr>"
  let ?blank = "\<lparr>user = Some \<lparr>id_user = [0x75, 0x31], name = [0x41, 0x6E, 0x6E], profile_picture_url = None\<rparr>,
       profile = None, newMessage = [0x20, 0x09, 0x3000, 0x0A], socket_connected = Some True\<rparr>"
  let ?anon = "\<lparr>user = None, profile = None, newMessage = [0x68, 0x69], socket_connected = Some True\<rparr>"
  have b: "\<forall>c\<in>set (newMessage ?blank). is_js_whitespace c"
    by (simp add: is_js_whitespace_def)
  have a: "user ?anon = None" by simp
  from b blank_or_signed_out_is_noop [of ?blank ?cenv ?senv "[]"]
  have 1: "handleSendMessage ?cenv ?senv ?blank [] = \<lparr>page = ?blank, table = [], requests = [], emitted = []\<rparr>"
    by blast
  from a blank_or_signed_out_is_noop [of ?anon ?cenv ?senv "[]"]
  have 2: "handleSendMessage ?cenv ?senv ?anon [] = \<lparr>page = ?anon, table = [], requests = [], emitted = []\<rparr>"
    by blast
  from 1 2 show ?thesis by blast
qed

text \<open>
  Claim C3, as amended. When the insert of a submitted message fails, sending stops there:
  no clean-up is run, nothing is emitted on the socket, and the table and the page state
  are unchanged, so the draft stays in the input. The emit depends on the insert: the
  message is emitted exactly when the insert succeeded and the socket is connected.
\<close>

theorem insert_failure_stops_send:
  assumes "trim (newMessage st) \<noteq> []" and "user st = Some u"
  shows "(\<forall>err. insert_message senv (insert_payload (build_messageData cenv st u)) tbl = Inl err \<longrightarrow>
            handleSendMessage cenv senv st tbl =
              \<lparr>page = st, table = tbl,
               requests = [insert_request (insert_payload (build_messageData cenv st u))],
               emitted = []\<rparr>)
    \<and> (emitted (handleSendMessage cenv senv st tbl) = [build_messageData cenv st u] \<longleftrightarrow>
          (\<exists>tbl1. insert_message senv (insert_payload (build_messageData cenv st u)) tbl = Inr tbl1)
          \<and> socket_connected st = Some True)
    \<and> (emitted (handleSendMessage cenv senv st tbl) = [build_messageData cenv st u]
         \<or> emitted (handleSendMessage cenv senv st tbl) = [])"
proof (cases "insert_message senv (insert_payload (build_messageData cenv st u)) tbl")
  case (Inl err)
  with assms show ?thesis by (simp add: handleSendMessage_insert_failed)
next
  case (Inr tbl1)
  with assms show ?thesis by (simp add: handleSendMessage_inserted)
qed

theorem insert_failure_stops_send_witness:
  "emitted (handleSendMessage
      \<lparr>randomUUID = [0x6D, 0x31], date_timestamp = 59, date_created_at = 59\<rparr>
      \<lparr>auth_uid = Some [0x75, 0x31], server_now = 100, tie_rank = (\<lambda>r. 0),
        insert_fails = False, select_fails = False, delete_fails = False\<rparr>
      \<lparr>user = Some \<lparr>id_user = [0x75, 0x31], name = [0x41, 0x6E, 0x6E], profile_picture_url = None\<rparr>,
       profile = None, newMessage = [0x68, 0x69], socket_connected = Some True\<rparr>
      [])
    = [\<lparr>id_msg = [0x6D, 0x31], user_id = [0x75, 0x31], user_name = [0x41, 0x6E, 0x6E],
        user_avatar = None, content = [0x68, 0x69], created_at = 59, timestamp = 59\<rparr>]
   \<and> emitted (handleSendMessage
      \<lparr>randomUUID = [0x6D, 0x31], date_timestamp = 59, date_created_at = 59\<rparr>
      \<lparr>auth_uid = Some [0x75, 0x31], server_now = 100, tie_rank = (\<lambda>r. 0),
        insert_fails = True, select_fails = False, delete_fails = False\<rparr>
      \<lparr>user = Some \<lparr>id_user = [0x75, 0x31], name = [0x41, 0x6E, 0x6E], profile_picture_url = None\<rparr>,
       profile = None, newMessage = [0x68, 0x69], socket_connected = Some True\<rparr>
      [])
    = []"
proof -
  let ?cenv = "\<lparr>randomUUID = [0x6D, 0x31], date_timestamp = 59, date_created_at = 59\<rparr>"
  let ?ok = "\<lparr>auth_uid = Some [0x75, 0x31], server_now = 100, tie_rank = (\<lambda>r. 0),
        insert_fails = False, select_fails = False, delete_fails = False\<rparr>"
  let ?ko = "\<lparr>auth_uid = Some [0x75, 0x31], server_now = 100, tie_rank = (\<lambda>r. 0),
        insert_fails = True, select_fails = False, delete_fails = False\<rparr>"
  let ?u = "\<lparr>id_user = [0x75, 0x31], name = [0x41, 0x6E, 0x6E], profile_picture_url = None\<rparr>"
  let ?st = "\<lparr>user = Some ?u, profile = None, newMessage = [0x68, 0x69], socket_connected = Some True\<rparr>"
  let ?row = "\<lparr>id_msg = [0x6D, 0x31], user_id = [0x75, 0x31], user_name = [0x41, 0x6E, 0x6E],
                  user_avatar = None, content = [0x68, 0x69], created_at = 59\<rparr>"
  have h1: "trim (newMessage ?st) \<noteq> []"
    by (simp add: trim_def is_js_whitespace_def)
  have h2: "user ?st = Some ?u" by simp
  have md: "build_messageData ?cenv ?st ?u =
      \<lparr>id_msg = [0x6D, 0x31], user_id = [0x75, 0x31], user_name = [0x41, 0x6E, 0x6E],
        user_avatar = None, content = [0x68, 0x69], created_at = 59, timestamp = 59\<rparr>"
    by (simp add: build_messageData_def trim_def is_js_whitespace_def)
  have row: "insert_payload (build_messageData ?cenv ?st ?u) = ?row"
    unfolding md by (simp add: insert_payload_def)
  have ok: "insert_message ?ok (insert_payload (build_messageData ?cenv ?st ?u)) [] = Inr [?row]"
    unfolding row by (simp add: insert_message_def auto_delete_old_messages_def policy_insert_own_messages_def
          policy_delete_own_messages_def three_days_def)
  have ko: "insert_message ?ko (insert_payload (build_messageData ?cenv ?st ?u)) [] = Inl request_failed"
    by (simp add: insert_message_def)
  from insert_failure_stops_send [OF h1 h2, of ?ok ?cenv "[]"] ok
  have 1: "emitted (handleSendMessage ?cenv ?ok ?st []) = [build_messageData ?cenv ?st ?u]"
    by simp
  from insert_failure_stops_send [OF h1 h2, of ?ko ?cenv "[]"] ko
  have "handleSendMessage ?cenv ?ko ?st [] =
      \<lparr>page = ?st, table = [],
       requests = [insert_request (insert_payload (build_messageData ?cenv ?st ?u))],
       emitted = []\<rparr>"
    by blast
  then have 2: "emitted (handleSendMessage ?cenv ?ko ?st []) = []" by simp
  from 1 2 show ?thesis unfolding md by blast
qed

text \<open>
  Claim C3 as stated fails when the datastore rejects the insert while the socket is
  connected: nothing is emitted.
\<close>

theorem broadcast_despite_insert_failure_counterexample:
  "insert_message
      \<lparr>auth_uid = Some [0x75, 0x31], server_now = 100, tie_rank = (\<lambda>r. 0),
        insert_fails = True, select_fails = False, delete_fails = False\<rparr>
      \<lparr>id_msg = [0x6D, 0x31], user_id = [0x75, 0x31], user_name = [0x41, 0x6E, 0x6E],
       user_avatar = None, content = [0x68, 0x69], created_at = 59\<rparr>
      []
     = Inl request_failed
   \<and> handleSendMessage
      \<lparr>randomUUID = [0x6D, 0x31], date_timestamp = 59, date_created_at = 59\<rparr>
      \<lparr>auth_uid = Some [0x75, 0x31], server_now = 100, tie_rank = (\<lambda>r. 0),
        insert_fails = True, select_fails = False, delete_fails = False\<rparr>
      \<lparr>user = Some \<lparr>id_user = [0x75, 0x31], name = [0x41, 0x6E, 0x6E], profile_picture_url = None\<rparr>,
       profile = None, newMessage = [0x68, 0x69], socket_connected = Some True\<rparr>
      []
    = \<lparr>page = \<lparr>user = Some \<lparr>id_user = [0x75, 0x31], name = [0x41, 0x6E, 0x6E], profile_picture_url = None\<rparr>,
                profile = None, newMessage = [0x68, 0x69], socket_connected = Some True\<rparr>,
       table = [],
       requests = [insert_request \<lparr>id_msg = [0x6D, 0x31], user_id = [0x75, 0x31], user_name = [0x41, 0x6E, 0x6E],
                      user_avatar = None, content = [0x68, 0x69], created_at = 59\<rparr>],
       emitted = []\<rparr>"
  by (simp add: handleSendMessage_def insert_message_def build_messageData_def insert_payload_def
        trim_def is_js_whitespace_def)

end
